theory Spec2Isabelle
  imports Complex_Main "HOL-Library.Word"
begin

unbundle bit_operations_syntax

section \<open>Generic retry and iteration helpers (namespace avr\_algorithms)\<close>

text \<open>
  \<^verbatim>\<open>repeat(int n, op)\<close>: \<^verbatim>\<open>while (n-- > 0) operation();\<close>
  The operation is a state transformer.
\<close>

function repeat :: "int \<Rightarrow> ('s \<Rightarrow> 's) \<Rightarrow> 's \<Rightarrow> 's" where
  "repeat n operation s = (if n > 0 then repeat (n - 1) operation (operation s) else s)"
  by pat_completeness auto
termination
  by (relation "measure (\<lambda>(n, _, _). nat n)") auto

declare repeat.simps [simp del]

text \<open>
  \<^verbatim>\<open>repeat_withExitCondition(int n, op)\<close>:
  \<^verbatim>\<open>while (n-- > 0) { if (!operation()) break; }\<close>
  The operation returns \<open>True\<close> to ask for another round; the variables it captures by
  reference are part of the state \<open>'s\<close>.
\<close>

function repeat_withExitCondition :: "int \<Rightarrow> ('s \<Rightarrow> bool \<times> 's) \<Rightarrow> 's \<Rightarrow> 's" where
  "repeat_withExitCondition n operation s =
     (if n > 0
      then (case operation s of
              (again, s') \<Rightarrow> if again then repeat_withExitCondition (n - 1) operation s' else s')
      else s)"
  by pat_completeness auto
termination
  by (relation "measure (\<lambda>(n, _, _). nat n)") auto

declare repeat_withExitCondition.simps [simp del]

text \<open>
  \<^verbatim>\<open>for_each_element(const T* buffer, size_t length, Func func)\<close> calls \<^verbatim>\<open>func(buffer[i])\<close>
  for every index in order and drops whatever \<^verbatim>\<open>func\<close> returns. The buffer with its length
  is a list.
\<close>

definition for_each_element :: "'a list \<Rightarrow> ('a \<Rightarrow> 's \<Rightarrow> 'r \<times> 's) \<Rightarrow> 's \<Rightarrow> 's" where
  "for_each_element buffer func s = fold (\<lambda>x t. snd (func x t)) buffer s"

text \<open>The array overload \<^verbatim>\<open>for_each_element(T(&array)[N], func)\<close> with a void \<^verbatim>\<open>func\<close>.\<close>

definition for_each_element_array :: "'a list \<Rightarrow> ('a \<Rightarrow> 's \<Rightarrow> 's) \<Rightarrow> 's \<Rightarrow> 's" where
  "for_each_element_array array func s = fold func array s"

section \<open>SPIBus: register protocol over the serial bus\<close>

type_synonym uint8_t = "8 word"
type_synonym uint32_t = "32 word"

text \<open>
  The Arduino SPI peripheral and the chip-select pin are the environment of the driver:
  \<open>SPI_transfer\<close> is \<^verbatim>\<open>SPI.transfer(byte)\<close> (full duplex, returns the byte clocked in) and
  \<open>digitalWrite_csn\<close> is \<^verbatim>\<open>digitalWrite(_csnPin, level)\<close> with \<open>True\<close> for HIGH. The device
  behind the bus has a state of type \<open>'d\<close>. \<^verbatim>\<open>SPI.beginTransaction\<close> and
  \<^verbatim>\<open>SPI.endTransaction\<close> only select clock settings and are left out, as are the log macros
  and the busy-wait delays.
\<close>

record 'd hardware =
  SPI_transfer :: "uint8_t \<Rightarrow> 'd \<Rightarrow> uint8_t \<times> 'd"
  digitalWrite_csn :: "bool \<Rightarrow> 'd \<Rightarrow> 'd"

text \<open>namespace SPI\_MASK::Masks (alias bitFlags)\<close>

definition WriteSingle :: uint8_t where "WriteSingle = 0x7F"
definition ReadSingle :: uint8_t where "ReadSingle = 0x80"
definition writeBurstRegister_flag :: uint8_t where "writeBurstRegister_flag = 0x40"
definition readBurstRegister_flag :: uint8_t where "readBurstRegister_flag = 0xC0"
definition AddressMask :: uint8_t where "AddressMask = 0x3F"
definition DummyByte :: uint8_t where "DummyByte = 0x00"

record ReadResult =
  status :: uint8_t
  val :: uint8_t

definition isValid :: "ReadResult \<Rightarrow> bool" where
  "isValid r \<longleftrightarrow> status r \<noteq> 0xFF \<and> val r \<noteq> 0xFF"

definition selectDevice :: "'d hardware \<Rightarrow> 'd \<Rightarrow> 'd" where
  "selectDevice hw d = digitalWrite_csn hw False d"

definition deselectDevice :: "'d hardware \<Rightarrow> 'd \<Rightarrow> 'd" where
  "deselectDevice hw d = digitalWrite_csn hw True d"

definition applyTransaction :: "'d hardware \<Rightarrow> ('d \<Rightarrow> 'a \<times> 'd) \<Rightarrow> 'd \<Rightarrow> 'a \<times> 'd" where
  "applyTransaction hw operation d =
     (case operation (selectDevice hw d) of (r, d1) \<Rightarrow> (r, deselectDevice hw d1))"

definition transferByte :: "'d hardware \<Rightarrow> uint8_t \<Rightarrow> 'd \<Rightarrow> uint8_t \<times> 'd" where
  "transferByte hw data d = applyTransaction hw (SPI_transfer hw data) d"

text \<open>
  One round of the read retry loop of \<^verbatim>\<open>SPIBus::readRegister\<close>: the two transfers inside one
  transaction, then the validity test. The loop state is the captured \<^verbatim>\<open>result\<close> and the
  device.
\<close>

definition readRegister_attempt ::
  "'d hardware \<Rightarrow> uint8_t \<Rightarrow> ReadResult \<times> 'd \<Rightarrow> bool \<times> (ReadResult \<times> 'd)" where
  "readRegister_attempt hw address = (\<lambda>(result, d).
     case applyTransaction hw (\<lambda>d0.
            case SPI_transfer hw (address OR ReadSingle) d0 of (st, d1) \<Rightarrow>
            case SPI_transfer hw DummyByte d1 of (v, d2) \<Rightarrow>
              (\<lparr>status = st, val = v\<rparr>, d2)) d of
       (result', d') \<Rightarrow>
         if \<not> isValid result' then (True, (result', d')) else (False, (result', d')))"

definition readRegister :: "'d hardware \<Rightarrow> uint8_t \<Rightarrow> 'd \<Rightarrow> ReadResult \<times> 'd" where
  "readRegister hw address d =
     (if address > AddressMask then (\<lparr>status = 0xFF, val = 0xFF\<rparr>, d)
      else repeat_withExitCondition 3 (readRegister_attempt hw address)
             (\<lparr>status = 0xFF, val = 0xFF\<rparr>, d))"

text \<open>
  One round of the write retry loop of \<^verbatim>\<open>SPIBus::writeRegister\<close>: the write transaction, the
  readback, and the comparison. The lambda returns \<^verbatim>\<open>false\<close> (stop) on a matching readback
  and \<^verbatim>\<open>true\<close> (retry) otherwise.
\<close>

definition writeRegister_attempt ::
  "'d hardware \<Rightarrow> uint8_t \<Rightarrow> uint8_t \<Rightarrow> ReadResult \<times> 'd \<Rightarrow> bool \<times> (ReadResult \<times> 'd)" where
  "writeRegister_attempt hw address v = (\<lambda>(readResult, d).
     case applyTransaction hw (\<lambda>d0.
            case SPI_transfer hw (address AND WriteSingle) d0 of (_, d1) \<Rightarrow>
            case SPI_transfer hw v d1 of (_, d2) \<Rightarrow> ((), d2)) d of
       (_, d') \<Rightarrow>
         case readRegister hw address d' of (readResult', d'') \<Rightarrow>
           if isValid readResult' \<and> val readResult' = v
           then (False, (readResult', d''))
           else (True, (readResult', d'')))"

text \<open>
  \<^verbatim>\<open>SPIBus::writeRegister\<close>. After the retry loop the function falls through to its final
  \<^verbatim>\<open>return false\<close> on every path.
\<close>

definition writeRegister :: "'d hardware \<Rightarrow> uint8_t \<Rightarrow> uint8_t \<Rightarrow> 'd \<Rightarrow> bool \<times> 'd" where
  "writeRegister hw address v d =
     (if address > AddressMask then (False, d)
      else case repeat_withExitCondition 3 (writeRegister_attempt hw address v)
                  (\<lparr>status = 0xFF, val = 0xFF\<rparr>, d) of
             (_, d') \<Rightarrow> (False, d'))"

text \<open>
  \<^verbatim>\<open>SPIBus::writeBurstRegister(address, data, length)\<close>. The data pointer is \<open>None\<close> when
  null, otherwise the memory it points to, indexed from 0.
\<close>

definition writeBurstRegister ::
  "'d hardware \<Rightarrow> uint8_t \<Rightarrow> (nat \<Rightarrow> uint8_t) option \<Rightarrow> nat \<Rightarrow> 'd \<Rightarrow> bool \<times> 'd" where
  "writeBurstRegister hw address data len d =
     (case data of
        None \<Rightarrow> (False, d)
      | Some buf \<Rightarrow>
          if len = 0 \<or> len > 64 then (False, d)
          else if address \<noteq> 0x03 \<and> address \<noteq> 0x3F then (False, d)
          else case applyTransaction hw (\<lambda>d0.
                      case SPI_transfer hw (address OR writeBurstRegister_flag) d0 of
                        (_, d1) \<Rightarrow> ((), fold (\<lambda>i t. snd (SPI_transfer hw (buf i) t)) [0..<len] d1)) d of
                 (_, d') \<Rightarrow> (True, d'))"

section \<open>ConfigApplier: applyRegisterConfig\_CC1101\<close>

record RegisterSettings =
  reg :: uint8_t
  reg_value :: uint8_t
  verify :: bool

text \<open>
  The lambda \<^verbatim>\<open>writeAndVerifyRegister\<close>. The write and read callables are parameters, as in the
  template; \<^verbatim>\<open>StoragePolicy::read\<close> fetches a field of the entry and is the field access.
\<close>

definition writeAndVerifyRegister ::
  "(uint8_t \<Rightarrow> uint8_t \<Rightarrow> 's \<Rightarrow> bool \<times> 's) \<Rightarrow> (uint8_t \<Rightarrow> 's \<Rightarrow> uint8_t \<times> 's) \<Rightarrow>
   RegisterSettings \<Rightarrow> 's \<Rightarrow> bool \<times> 's" where
  "writeAndVerifyRegister writeReg readReg regSettings s =
     (let address = reg regSettings; v = reg_value regSettings; vf = verify regSettings
      in case writeReg address v s of
           (ok, s1) \<Rightarrow>
             if \<not> ok then (False, s1)
             else if vf
               then (case readReg address s1 of
                       (writeValue, s2) \<Rightarrow> if writeValue \<noteq> v then (False, s2) else (True, s2))
               else (True, s1))"

text \<open>
  \<^verbatim>\<open>applyRegisterConfig_CC1101(config, N, writeRegister, readRegister)\<close>: the lambda is handed
  to \<^verbatim>\<open>for_each_element\<close>, then the function returns \<^verbatim>\<open>true\<close>.
\<close>

definition applyRegisterConfig_CC1101 ::
  "RegisterSettings list \<Rightarrow> (uint8_t \<Rightarrow> uint8_t \<Rightarrow> 's \<Rightarrow> bool \<times> 's) \<Rightarrow>
   (uint8_t \<Rightarrow> 's \<Rightarrow> uint8_t \<times> 's) \<Rightarrow> 's \<Rightarrow> bool \<times> 's" where
  "applyRegisterConfig_CC1101 config writeReg readReg s =
     (True, for_each_element config (writeAndVerifyRegister writeReg readReg) s)"

section \<open>BitEncoder interface and the SC41344 frame streamer\<close>

text \<open>The six methods of \<^verbatim>\<open>IBitEncoder\<close>, acting on the state \<open>'e\<close> of the output line.\<close>

record 'e IBitEncoder =
  sendOne :: "'e \<Rightarrow> 'e"
  sendZero :: "'e \<Rightarrow> 'e"
  sendOpen :: "'e \<Rightarrow> 'e"
  sendSilence :: "'e \<Rightarrow> 'e"
  sendPreamble :: "'e \<Rightarrow> 'e"
  setIdle :: "'e \<Rightarrow> 'e"

definition FRAME_REPEATS :: int where "FRAME_REPEATS = 3"

definition sendBit :: "'e IBitEncoder \<Rightarrow> uint8_t \<Rightarrow> 'e \<Rightarrow> 'e" where
  "sendBit encoder b e = (if b = 1 then sendOne encoder e else sendZero encoder e)"

definition sendFrame :: "'e IBitEncoder \<Rightarrow> uint8_t list \<Rightarrow> 'e \<Rightarrow> 'e" where
  "sendFrame encoder code_DataBits e =
     sendOpen encoder (for_each_element_array code_DataBits (sendBit encoder) e)"

definition streamFrame :: "'e IBitEncoder \<Rightarrow> uint8_t list \<Rightarrow> 'e \<Rightarrow> 'e" where
  "streamFrame encoder code_DataBits e =
     (let e1 = sendPreamble encoder e;
          e2 = sendFrame encoder code_DataBits e1;
          e3 = repeat FRAME_REPEATS
                 (\<lambda>t. sendFrame encoder code_DataBits (sendSilence encoder t)) e2
      in setIdle encoder e3)"

text \<open>
  The frame as the specification words it: preamble; one word (each data bit as its symbol,
  then the trailer); a fixed count of silence-plus-word repetitions; idle.
\<close>

datatype symbol = Preamble | BitOne | BitZero | Trailer | Silence | Idle

definition word_symbols :: "uint8_t list \<Rightarrow> symbol list" where
  "word_symbols bits = map (\<lambda>b. if b = 1 then BitOne else BitZero) bits @ [Trailer]"

definition frame_symbols :: "nat \<Rightarrow> uint8_t list \<Rightarrow> symbol list" where
  "frame_symbols repeatCount bits =
     [Preamble] @ word_symbols bits
       @ concat (replicate repeatCount (Silence # word_symbols bits)) @ [Idle]"

fun emit :: "'e IBitEncoder \<Rightarrow> symbol \<Rightarrow> 'e \<Rightarrow> 'e" where
  "emit encoder Preamble = sendPreamble encoder"
| "emit encoder BitOne = sendOne encoder"
| "emit encoder BitZero = sendZero encoder"
| "emit encoder Trailer = sendOpen encoder"
| "emit encoder Silence = sendSilence encoder"
| "emit encoder Idle = setIdle encoder"

text \<open>An encoder that records the symbol calls it receives, oldest first.\<close>

definition recorder :: "symbol list IBitEncoder" where
  "recorder = \<lparr>sendOne = (\<lambda>t. t @ [BitOne]), sendZero = (\<lambda>t. t @ [BitZero]),
                sendOpen = (\<lambda>t. t @ [Trailer]), sendSilence = (\<lambda>t. t @ [Silence]),
                sendPreamble = (\<lambda>t. t @ [Preamble]), setIdle = (\<lambda>t. t @ [Idle])\<rparr>"

section \<open>Transceiver (chip controller)\<close>

text \<open>namespace CC1101::Address and the one entry of CC1101::Value used as an operand\<close>

definition Address_FREQ2 :: uint8_t where "Address_FREQ2 = 0x0D"
definition Address_FREQ1 :: uint8_t where "Address_FREQ1 = 0x0E"
definition Address_FREQ0 :: uint8_t where "Address_FREQ0 = 0x0F"
definition Address_MDMCFG3 :: uint8_t where "Address_MDMCFG3 = 0x11"
definition Address_FREND0 :: uint8_t where "Address_FREND0 = 0x22"
definition Address_PATABLE :: uint8_t where "Address_PATABLE = 0x3E"
definition Value_FREND0 :: uint8_t where "Value_FREND0 = 0x11"

definition paTable :: "uint8_t list" where
  "paTable = [0x03, 0x0D, 0x1C, 0x34, 0x51, 0x85, 0xC8, 0xC0]"










text \<open>\<^verbatim>\<open>Transceiver::configurePATable\<close> and \<^verbatim>\<open>Transceiver::setPowerLevel\<close>\<close>

definition configurePATable :: "'d hardware \<Rightarrow> uint8_t \<Rightarrow> 'd \<Rightarrow> 'd" where
  "configurePATable hw powerLevelIndex d =
     (if powerLevelIndex > 7 then d
      else case writeBurstRegister hw Address_PATABLE (Some (\<lambda>i. paTable ! i)) 8 d of
             (_, d1) \<Rightarrow>
               case readRegister hw Address_FREND0 d1 of
                 (r, d2) \<Rightarrow>
                   let frend0 = (val r AND NOT 0x07) OR (powerLevelIndex AND 0x07)
                   in snd (writeRegister hw Value_FREND0 frend0 d2))"

definition setPowerLevel :: "'d hardware \<Rightarrow> uint8_t \<Rightarrow> 'd \<Rightarrow> 'd" where
  "setPowerLevel hw level d = configurePATable hw (if level > 7 then 7 else level) d"

text \<open>
  \<^verbatim>\<open>Transceiver::setFrequency\<close>. The tuning word is computed in 64 bits and stored in a
  32-bit local; each byte is cut out with a shift and a mask and narrowed to 8 bits.
\<close>

definition F_XOSC :: "64 word" where "F_XOSC = 26000000"

definition tuningWord :: "uint32_t \<Rightarrow> uint32_t" where
  "tuningWord frequencyHz = ucast ((ucast frequencyHz :: 64 word) * push_bit 16 1 div F_XOSC)"

definition setFrequency :: "'d hardware \<Rightarrow> uint32_t \<Rightarrow> 'd \<Rightarrow> 'd" where
  "setFrequency hw frequencyHz d =
     (if frequencyHz < 300000000 \<or> frequencyHz > 928000000 then d
      else let freq = tuningWord frequencyHz;
               d1 = snd (writeRegister hw Address_FREQ2 (ucast (drop_bit 16 freq AND 0xFF)) d);
               d2 = snd (writeRegister hw Address_FREQ1 (ucast (drop_bit 8 freq AND 0xFF)) d1)
           in snd (writeRegister hw Address_FREQ0 (ucast (freq AND 0xFF)) d2))"

section \<open>A register-file test double for the bus\<close>

text \<open>
  A chip that honestly stores what is written: the first byte after chip select is the
  header (bit 7 set for a read, low six bits the address); it is answered with the status
  byte. Every further byte of a read is answered with the stored register, every further
  byte of a write is stored. The chip logs each byte it is sent.
\<close>

record fake_chip =
  regs :: "uint8_t \<Rightarrow> uint8_t"
  chip_status :: uint8_t
  header :: "uint8_t option"
  mosi :: "uint8_t list"

definition fake_transfer :: "uint8_t \<Rightarrow> fake_chip \<Rightarrow> uint8_t \<times> fake_chip" where
  "fake_transfer b c =
     (case header c of
        None \<Rightarrow> (chip_status c, c\<lparr>header := Some b, mosi := mosi c @ [b]\<rparr>)
      | Some h \<Rightarrow>
          if h AND 0x80 \<noteq> 0 then (regs c (h AND 0x3F), c\<lparr>mosi := mosi c @ [b]\<rparr>)
          else (chip_status c, c\<lparr>regs := (regs c)(h AND 0x3F := b), mosi := mosi c @ [b]\<rparr>))"

definition fake_csn :: "bool \<Rightarrow> fake_chip \<Rightarrow> fake_chip" where
  "fake_csn level c = c\<lparr>header := None\<rparr>"

definition fake_bus :: "fake_chip hardware" where
  "fake_bus = \<lparr>SPI_transfer = fake_transfer, digitalWrite_csn = fake_csn\<rparr>"

text \<open>A chip with every register zero except the listed ones, idle bus, empty log.\<close>

definition chip_with :: "(uint8_t \<times> uint8_t) list \<Rightarrow> fake_chip" where
  "chip_with rs = \<lparr>regs = fold (\<lambda>(a, v) f. f(a := v)) rs (\<lambda>_. 0), chip_status = 0x0F,
                    header = None, mosi = []\<rparr>"

section \<open>A test bench: the storing chip and the output line with one event log\<close>









section \<open>Delay: a polled microsecond timer\<close>

text \<open>
  \<^verbatim>\<open>unsigned long\<close> is 32 bits on the target. Every call of \<^verbatim>\<open>micros()\<close> is an input: the
  reading taken by the comparison and the one taken by \<^verbatim>\<open>restartTimer\<close>.
\<close>

record Delay =
  delayTime :: uint32_t
  previousTime :: uint32_t

definition restartTimer :: "uint32_t \<Rightarrow> Delay \<Rightarrow> Delay" where
  "restartTimer now dl = dl\<lparr>previousTime := now\<rparr>"

definition isDelayTimeElapsed :: "uint32_t \<Rightarrow> uint32_t \<Rightarrow> Delay \<Rightarrow> bool \<times> Delay" where
  "isDelayTimeElapsed now now' dl =
     (if now - previousTime dl \<ge> delayTime dl then (True, restartTimer now' dl) else (False, dl))"

section \<open>CircularDebounceBuffer: the debounce engine\<close>

definition BUFFER_SIZE :: nat where "BUFFER_SIZE = 16"
definition MAX_CALLBACKS :: nat where "MAX_CALLBACKS = 4"

text \<open>
  A callback is a pointer to a zero-argument function: \<open>None\<close> is the null pointer,
  \<open>Some k\<close> the function number \<open>k\<close>. Calling it is recorded by its number.
\<close>

type_synonym Callback = "nat option"

record CircularDebounceBuffer =
  isActiveLow :: bool
  debouncing :: bool
  stableState :: bool
  pressedDetected :: bool
  buffer :: "bool list"
  head :: nat
  thresholdPercentage :: uint8_t
  callbacks :: "Callback list"
  callbackCounter :: nat
  delayBetweenSamples :: Delay

definition clearBuffer :: "CircularDebounceBuffer \<Rightarrow> CircularDebounceBuffer" where
  "clearBuffer s = s\<lparr>buffer := replicate BUFFER_SIZE False, head := 0\<rparr>"

text \<open>
  The constructor. The callback array is not initialised by it; \<open>slots\<close> is whatever the
  four entries hold.
\<close>

definition CircularDebounceBuffer_new ::
  "bool \<Rightarrow> uint32_t \<Rightarrow> Callback list \<Rightarrow> CircularDebounceBuffer" where
  "CircularDebounceBuffer_new activeLow delayBetweenUs slots =
     clearBuffer \<lparr>isActiveLow = activeLow, debouncing = False, stableState = False,
       pressedDetected = False, buffer = [], head = 0, thresholdPercentage = 90,
       callbacks = slots, callbackCounter = 0,
       delayBetweenSamples = \<lparr>delayTime = delayBetweenUs, previousTime = 0\<rparr>\<rparr>"

definition setThreshold :: "uint8_t \<Rightarrow> CircularDebounceBuffer \<Rightarrow> CircularDebounceBuffer" where
  "setThreshold percentage s =
     (if percentage \<le> 100 then s\<lparr>thresholdPercentage := percentage\<rparr> else s)"

definition addCallback :: "Callback \<Rightarrow> CircularDebounceBuffer \<Rightarrow> CircularDebounceBuffer" where
  "addCallback cb s =
     (if callbackCounter s < MAX_CALLBACKS
      then s\<lparr>callbacks := (callbacks s)[callbackCounter s := cb],
              callbackCounter := callbackCounter s + 1\<rparr>
      else s)"

definition startDebounce :: "uint32_t \<Rightarrow> CircularDebounceBuffer \<Rightarrow> CircularDebounceBuffer" where
  "startDebounce now s =
     (if \<not> debouncing s \<and> \<not> stableState s
      then (clearBuffer (s\<lparr>debouncing := True, pressedDetected := False\<rparr>))
             \<lparr>delayBetweenSamples := restartTimer now (delayBetweenSamples s)\<rparr>
      else s)"

definition reset :: "CircularDebounceBuffer \<Rightarrow> CircularDebounceBuffer" where
  "reset s = (clearBuffer s)\<lparr>stableState := False, pressedDetected := False,
                debouncing := False, callbackCounter := 0\<rparr>"

text \<open>What one call of \<^verbatim>\<open>update()\<close> reads from the outside: two clock readings and the pin.\<close>

record tick =
  micros_now :: uint32_t
  micros_restart :: uint32_t
  pin_level :: bool

text \<open>
  Steps 2 to 4 of \<^verbatim>\<open>update()\<close>: nothing unless the interval has elapsed; otherwise the
  normalised pin reading is written at \<^verbatim>\<open>_head\<close> and \<^verbatim>\<open>_head\<close> advances modulo the size.
\<close>

definition takeSample :: "tick \<Rightarrow> CircularDebounceBuffer \<Rightarrow> CircularDebounceBuffer option" where
  "takeSample t s =
     (case isDelayTimeElapsed (micros_now t) (micros_restart t) (delayBetweenSamples s) of
        (elapsed, dl) \<Rightarrow>
          if \<not> elapsed then None
          else let raw = pin_level t;
                   adjusted = (if isActiveLow s then \<not> raw else raw)
               in Some (s\<lparr>delayBetweenSamples := dl,
                          buffer := (buffer s)[head s := adjusted],
                          head := (head s + 1) mod BUFFER_SIZE\<rparr>))"

text \<open>Step 5: the loop over all slots counting the true ones.\<close>

definition trueCount :: "CircularDebounceBuffer \<Rightarrow> nat" where
  "trueCount s = length (filter (\<lambda>i. buffer s ! i) [0..<BUFFER_SIZE])"

text \<open>
  Step 6: \<^verbatim>\<open>(BUFFER_SIZE * _thresholdPercentage + 99) / 100\<close>; at most 41, so neither the
  16-bit intermediate nor the 8-bit result overflows.
\<close>

definition thresholdCount :: "CircularDebounceBuffer \<Rightarrow> nat" where
  "thresholdCount s = (BUFFER_SIZE * unat (thresholdPercentage s) + 99) div 100"

text \<open>The loop that calls every non-null registered callback, in index order.\<close>

definition fireCallbacks :: "CircularDebounceBuffer \<Rightarrow> nat list" where
  "fireCallbacks s = List.map_filter (\<lambda>i. callbacks s ! i) [0..<callbackCounter s]"

text \<open>
  \<^verbatim>\<open>update()\<close>, returning the callbacks it called. The release comparison is done in
  \<^verbatim>\<open>size_t\<close> (16 bits on the target), so the subtraction wraps.
\<close>

definition update :: "tick \<Rightarrow> CircularDebounceBuffer \<Rightarrow> CircularDebounceBuffer \<times> nat list" where
  "update t s =
     (if \<not> debouncing s then (s, [])
      else case takeSample t s of
             None \<Rightarrow> (s, [])
           | Some s1 \<Rightarrow>
               let tc = trueCount s1; th = thresholdCount s1
               in if \<not> pressedDetected s1
                  then (if tc \<ge> th
                        then (s1\<lparr>stableState := True, pressedDetected := True\<rparr>, fireCallbacks s1)
                        else (s1, []))
                  else (if int tc \<le> (int BUFFER_SIZE - int th) mod 2 ^ 16
                        then ((clearBuffer (s1\<lparr>stableState := False, pressedDetected := False\<rparr>))
                                \<lparr>debouncing := False\<rparr>, [])
                        else (s1, [])))"

text \<open>A sequence of \<^verbatim>\<open>update()\<close> calls, with the callbacks called by each.\<close>

fun updates :: "tick list \<Rightarrow> CircularDebounceBuffer \<Rightarrow> CircularDebounceBuffer \<times> nat list list" where
  "updates [] s = (s, [])"
| "updates (t # ts) s =
     (case update t s of (s1, called) \<Rightarrow>
        case updates ts s1 of (s2, rest) \<Rightarrow> (s2, called # rest))"

text \<open>
  The invariant of the engine's data: array sizes, cursor range, percentage range,
  registration count within the callback array.
\<close>

definition wf :: "CircularDebounceBuffer \<Rightarrow> bool" where
  "wf s \<longleftrightarrow> length (buffer s) = BUFFER_SIZE \<and> head s < BUFFER_SIZE
            \<and> thresholdPercentage s \<le> 100
            \<and> length (callbacks s) = MAX_CALLBACKS \<and> callbackCounter s \<le> MAX_CALLBACKS"

text \<open>
  The samples of a session seen on their own: for each call, the true-count of the buffer
  after the sample taken by that call, or \<open>None\<close> when the interval had not elapsed.
\<close>

fun sampled_counts :: "tick list \<Rightarrow> CircularDebounceBuffer \<Rightarrow> nat option list" where
  "sampled_counts [] s = []"
| "sampled_counts (t # ts) s =
     (case takeSample t s of
        None \<Rightarrow> None # sampled_counts ts s
      | Some s1 \<Rightarrow> Some (trueCount s1) # sampled_counts ts s1)"

text \<open>Index of the first sample whose count reaches \<open>th\<close> (the list length when none does).\<close>

definition press_index :: "nat \<Rightarrow> nat option list \<Rightarrow> nat" where
  "press_index th cs =
     length (takeWhile (\<lambda>c. case c of None \<Rightarrow> True | Some tc \<Rightarrow> tc < th) cs)"

text \<open>
  Number of samples, from the front of \<open>cs\<close>, that do not yet confirm a release: the count is
  still above \<open>BUFFER_SIZE - th\<close> or no sample was taken.
\<close>

definition release_wait :: "nat \<Rightarrow> nat option list \<Rightarrow> nat" where
  "release_wait th cs =
     length (takeWhile (\<lambda>c. case c of None \<Rightarrow> True
                              | Some tc \<Rightarrow> \<not> tc \<le> BUFFER_SIZE - th) cs)"

text \<open>
  Index of the first sample after the press whose count is at most \<open>BUFFER_SIZE - th\<close>
  (at least the list length when there is none).
\<close>

definition release_index :: "nat \<Rightarrow> nat option list \<Rightarrow> nat" where
  "release_index th cs =
     Suc (press_index th cs) + release_wait th (drop (Suc (press_index th cs)) cs)"

text \<open>The state a confirmed release leaves: stable state released, buffer cleared, disarmed.\<close>

definition released :: "CircularDebounceBuffer \<Rightarrow> bool" where
  "released s \<longleftrightarrow> \<not> debouncing s \<and> \<not> stableState s \<and> \<not> pressedDetected s
     \<and> buffer s = replicate BUFFER_SIZE False \<and> head s = 0"

text \<open>
  An example session: an active-low button sampled every millisecond, threshold 60 percent,
  one callback (number 7) registered, armed at time 0; the calls of \<^verbatim>\<open>update()\<close> come one
  millisecond apart, each with the given pin level.
\<close>

definition example_armed :: CircularDebounceBuffer where
  "example_armed =
     startDebounce 0 (addCallback (Some 7) (setThreshold 60
       (CircularDebounceBuffer_new True 1000 [None, None, None, None])))"

definition tick_at :: "nat \<Rightarrow> bool \<Rightarrow> tick" where
  "tick_at ms level =
     \<lparr>micros_now = 1000 * of_nat ms, micros_restart = 1000 * of_nat ms, pin_level = level\<rparr>"

definition example_ticks :: "bool list \<Rightarrow> tick list" where
  "example_ticks levels = map2 tick_at [1..<Suc (length levels)] levels"

section \<open>Retry loops: unfolding and invariants\<close>

lemmas retry3 = repeat_withExitCondition.simps [of 3] repeat_withExitCondition.simps [of 2]
  repeat_withExitCondition.simps [of 1] repeat_withExitCondition.simps [of 0]

lemma retry_invariant:
  assumes "P s" and "\<And>t. P t \<Longrightarrow> P (snd (operation t))"
  shows "P (repeat_withExitCondition n operation s)"
  using assms
proof (induction n operation s rule: repeat_withExitCondition.induct)
  case (1 n operation s)
  show ?case
  proof (cases "n > 0")
    case False
    then show ?thesis using "1.prems"(1) by (simp add: repeat_withExitCondition.simps [of n])
  next
    case True
    obtain again s' where op: "operation s = (again, s')" by (cases "operation s")
    have ps': "P s'" using "1.prems"(2) [OF "1.prems"(1)] op by simp
    show ?thesis
    proof (cases again)
      case True
      with \<open>n > 0\<close> op "1.IH" [OF \<open>n > 0\<close> op [symmetric] True ps' "1.prems"(2)] show ?thesis
        by (simp add: repeat_withExitCondition.simps [of n])
    next
      case False
      with \<open>n > 0\<close> op ps' show ?thesis
        by (simp add: repeat_withExitCondition.simps [of n])
    qed
  qed
qed

section \<open>The register protocol against the test double\<close>

lemma mask6: "(a::uint8_t) \<le> 0x3F \<Longrightarrow> a AND 0x3F = a"
proof -
  assume "a \<le> 0x3F"
  then have "a < 2 ^ 6" by (simp add: word_less_nat_alt word_le_nat_alt)
  then have "a AND mask 6 = a" by (rule less_mask_eq)
  then show ?thesis by (simp add: mask_eq_exp_minus_1)
qed

lemma addr_bits:
  fixes a :: uint8_t
  assumes "a \<le> 0x3F"
  shows "(a AND 0x7F) AND 0x80 = 0" and "(a AND 0x7F) AND 0x3F = a"
    and "(a OR 0x80) AND 0x80 \<noteq> 0" and "(a OR 0x80) AND 0x3F = a"
proof -
  have m: "a AND 0x3F = a" using assms by (rule mask6)
  show "(a AND 0x7F) AND 0x80 = 0" by (simp add: and.assoc)
  show "(a AND 0x7F) AND 0x3F = a" using m by (simp add: and.assoc)
  show "(a OR 0x80) AND 0x80 \<noteq> 0" by (simp add: bit.conj_disj_distrib2)
  show "(a OR 0x80) AND 0x3F = a" using m by (simp add: bit.conj_disj_distrib2)
qed

lemmas fake_defs = applyTransaction_def selectDevice_def deselectDevice_def
  fake_bus_def fake_transfer_def fake_csn_def

lemmas spi_defs = readRegister_def readRegister_attempt_def writeRegister_def
  writeRegister_attempt_def transferByte_def WriteSingle_def ReadSingle_def AddressMask_def
  DummyByte_def isValid_def chip_with_def

lemma fake_read_attempt:
  assumes "a \<le> 0x3F"
  shows "readRegister_attempt fake_bus a (r, c) =
          (\<not> (chip_status c \<noteq> 0xFF \<and> regs c a \<noteq> 0xFF),
           (\<lparr>status = chip_status c, val = regs c a\<rparr>,
            c\<lparr>header := None, mosi := mosi c @ [a OR 0x80, 0]\<rparr>))"
  using addr_bits [OF assms]
  by (simp add: readRegister_attempt_def fake_defs ReadSingle_def DummyByte_def isValid_def)

lemma fake_readRegister:
  assumes "a \<le> 0x3F"
  shows "fst (readRegister fake_bus a c) = \<lparr>status = chip_status c, val = regs c a\<rparr>"
    and "regs (snd (readRegister fake_bus a c)) = regs c"
    and "chip_status (snd (readRegister fake_bus a c)) = chip_status c"
proof -
  have na: "\<not> a > AddressMask" using assms by (simp add: AddressMask_def)
  show "fst (readRegister fake_bus a c) = \<lparr>status = chip_status c, val = regs c a\<rparr>"
    unfolding readRegister_def using na
    by (simp add: retry3 fake_read_attempt [OF assms])
  show "regs (snd (readRegister fake_bus a c)) = regs c"
    unfolding readRegister_def using na
    by (simp add: retry3 fake_read_attempt [OF assms])
  show "chip_status (snd (readRegister fake_bus a c)) = chip_status c"
    unfolding readRegister_def using na
    by (simp add: retry3 fake_read_attempt [OF assms])
qed

lemma fake_write_txn:
  assumes "a \<le> 0x3F"
  shows "applyTransaction fake_bus (\<lambda>d0.
            case SPI_transfer fake_bus (a AND WriteSingle) d0 of (_, d1) \<Rightarrow>
            case SPI_transfer fake_bus v d1 of (_, d2) \<Rightarrow> ((), d2)) c
         = ((), c\<lparr>regs := (regs c)(a := v), header := None, mosi := mosi c @ [a AND 0x7F, v]\<rparr>)"
  using addr_bits [OF assms]
  by (simp add: fake_defs WriteSingle_def)

lemma fake_write_attempt:
  assumes "a \<le> 0x3F"
  shows "regs (snd (snd (writeRegister_attempt fake_bus a v (r, c)))) = (regs c)(a := v)"
    and "chip_status (snd (snd (writeRegister_attempt fake_bus a v (r, c)))) = chip_status c"
proof -
  let ?c1 = "c\<lparr>regs := (regs c)(a := v), header := None, mosi := mosi c @ [a AND 0x7F, v]\<rparr>"
  have w: "snd (snd (writeRegister_attempt fake_bus a v (r, c))) = snd (readRegister fake_bus a ?c1)"
    by (simp add: writeRegister_attempt_def fake_write_txn [OF assms] split: prod.split)
  show "regs (snd (snd (writeRegister_attempt fake_bus a v (r, c)))) = (regs c)(a := v)"
    by (simp add: w fake_readRegister [OF assms])
  show "chip_status (snd (snd (writeRegister_attempt fake_bus a v (r, c)))) = chip_status c"
    by (simp add: w fake_readRegister [OF assms])
qed

lemma fake_writeRegister:
  assumes "a \<le> 0x3F"
  shows "regs (snd (writeRegister fake_bus a v c)) = (regs c)(a := v)"
    and "chip_status (snd (writeRegister fake_bus a v c)) = chip_status c"
proof -
  have na: "\<not> a > AddressMask" using assms by (simp add: AddressMask_def)
  let ?P = "\<lambda>(r, c'). regs c' = (regs c)(a := v) \<and> chip_status c' = chip_status c"
  let ?first = "writeRegister_attempt fake_bus a v (\<lparr>status = 0xFF, val = 0xFF\<rparr>, c)"
  have first: "?P (snd ?first)"
    using fake_write_attempt [OF assms, of v "\<lparr>status = 0xFF, val = 0xFF\<rparr>" c]
    by (simp add: case_prod_beta)
  have step: "\<And>t. ?P t \<Longrightarrow> ?P (snd (writeRegister_attempt fake_bus a v t))"
    using fake_write_attempt [OF assms] by (auto simp: case_prod_beta)
  have loop: "?P (repeat_withExitCondition 3 (writeRegister_attempt fake_bus a v)
                   (\<lparr>status = 0xFF, val = 0xFF\<rparr>, c))"
  proof (cases "fst ?first")
    case True
    have "?P (repeat_withExitCondition 2 (writeRegister_attempt fake_bus a v) (snd ?first))"
      using first step by (rule retry_invariant)
    with True show ?thesis
      by (simp add: repeat_withExitCondition.simps [of 3] case_prod_beta)
  next
    case False
    with first show ?thesis
      by (simp add: repeat_withExitCondition.simps [of 3] case_prod_beta)
  qed
  show "regs (snd (writeRegister fake_bus a v c)) = (regs c)(a := v)"
    using loop na by (simp add: writeRegister_def case_prod_beta)
  show "chip_status (snd (writeRegister fake_bus a v c)) = chip_status c"
    using loop na by (simp add: writeRegister_def case_prod_beta)
qed

lemma writeRegister_result: "fst (writeRegister hw address v d) = False"
  by (simp add: writeRegister_def split: prod.splits)

text \<open>
  Claim C1 says that \<^verbatim>\<open>writeRegister\<close> returns true when a readback equals the value within
  the three attempts. Here the chip stores the write, the single readback of attempt one
  matches (the log shows one write and one read), and the function still returns false.
\<close>

theorem writeRegister_false_on_matching_readback:
  "fst (writeRegister fake_bus 0x02 0x2E (chip_with [])) = False
   \<and> regs (snd (writeRegister fake_bus 0x02 0x2E (chip_with []))) 0x02 = 0x2E
   \<and> mosi (snd (writeRegister fake_bus 0x02 0x2E (chip_with []))) = [0x02, 0x2E, 0x82, 0x00]"
  by (simp add: spi_defs fake_defs retry3)

text \<open>
  Claim C7: for every valid address (0x00 to 0x3F) and every byte, on the chip that stores
  what is written, \<^verbatim>\<open>writeRegister(a, v)\<close> followed by \<^verbatim>\<open>readRegister(a)\<close> yields a result
  whose value field is \<open>v\<close>. This holds from any state of the chip and for any status byte.
\<close>

theorem write_then_read_roundtrip:
  assumes "a \<le> 0x3F"
  shows "val (fst (readRegister fake_bus a (snd (writeRegister fake_bus a v c)))) = v"
  by (simp add: fake_readRegister [OF assms] fake_writeRegister [OF assms])

theorem write_then_read_roundtrip_witness:
  "(0x22 :: uint8_t) \<le> 0x3F
   \<and> val (fst (readRegister fake_bus 0x22 (snd (writeRegister fake_bus 0x22 0x17 (chip_with []))))) = 0x17"
  using write_then_read_roundtrip [of "0x22" "0x17" "chip_with []"] by simp

text \<open>
  Claim C8 names the 8-byte power table as one of the two burst-capable addresses. The
  power table is at \<^verbatim>\<open>CC1101::Address::PATABLE\<close> = 0x3E; a burst write of eight bytes to it
  from a non-null buffer is rejected, on any bus, with the device untouched.
\<close>

theorem writeBurstRegister_rejects_PATABLE:
  "writeBurstRegister hw Address_PATABLE (Some buf) 8 d = (False, d)"
  by (simp add: writeBurstRegister_def Address_PATABLE_def)

section \<open>ConfigApplier\<close>

text \<open>
  Claim C2 says that the applier aborts at the first failing entry and returns true only if
  every entry succeeded. Here the list has three entries and the write callable fails for
  the second (address 0x02), recording every address it is called with: the third entry is
  still attempted and the result is true.
\<close>

theorem applyRegisterConfig_no_short_circuit:
  "applyRegisterConfig_CC1101
     [\<lparr>reg = 0x01, reg_value = 0x10, verify = False\<rparr>,
      \<lparr>reg = 0x02, reg_value = 0x20, verify = False\<rparr>,
      \<lparr>reg = 0x03, reg_value = 0x30, verify = False\<rparr>]
     (\<lambda>a v attempted. (a \<noteq> 0x02, attempted @ [a]))
     (\<lambda>a attempted. (0, attempted))
     []
   = (True, [0x01, 0x02, 0x03])"
  by (simp add: applyRegisterConfig_CC1101_def for_each_element_def writeAndVerifyRegister_def)

section \<open>Frame streamer\<close>

lemmas repeat3 = repeat.simps [of 3] repeat.simps [of 2] repeat.simps [of 1] repeat.simps [of 0]

lemma sendFrame_symbols:
  "sendFrame encoder bits e = fold (emit encoder) (word_symbols bits) e"
proof -
  have "(emit encoder \<circ> (\<lambda>b. if b = 1 then BitOne else BitZero)) = sendBit encoder"
    by (rule ext) (simp add: sendBit_def fun_eq_iff)
  then show ?thesis
    by (simp add: sendFrame_def word_symbols_def for_each_element_array_def fold_map)
qed

lemma streamFrame_symbols:
  "streamFrame encoder bits e = fold (emit encoder) (frame_symbols 3 bits) e"
  by (simp add: streamFrame_def frame_symbols_def FRAME_REPEATS_def repeat3 sendFrame_symbols
      numeral_3_eq_3)

lemma emit_recorder: "emit recorder x t = t @ [x]"
  by (cases x) (simp_all add: recorder_def)

lemma fold_emit_recorder: "fold (emit recorder) xs t = t @ xs"
  by (induction xs arbitrary: t) (simp_all add: emit_recorder)

lemma length_frame_symbols:
  "length (frame_symbols n bits) = 1 + (1 + n) * (length bits + 1) + n + 1"
  by (simp add: frame_symbols_def word_symbols_def length_concat sum_list_replicate algebra_simps)

lemma count_trailer_word: "count_list (word_symbols bits) Trailer = 1"
  by (induction bits) (simp_all add: word_symbols_def)

lemma count_list_concat_replicate:
  "count_list (concat (replicate n xs)) y = n * count_list xs y"
  by (induction n) simp_all

lemma count_trailer_frame: "count_list (frame_symbols n bits) Trailer = 1 + n"
  by (simp add: frame_symbols_def count_list_concat_replicate count_trailer_word)

text \<open>
  Claim C5: for every frame of N bits, on any encoder, \<^verbatim>\<open>streamFrame\<close> makes exactly the
  calls of the sequence: one preamble, one word (each data bit as its symbol, then one
  trailer), then \<^verbatim>\<open>FRAME_REPEATS\<close> = 3 repetitions of silence and word, then idle. The
  recording encoder started empty holds exactly that sequence; its length is
  1 + (1 + 3) (N + 1) + 3 + 1; it holds 1 + 3 trailers, one per word; and for N = 8 the
  length is 41.
\<close>

theorem streamFrame_symbol_sequence:
  "streamFrame encoder bits e = fold (emit encoder) (frame_symbols (nat FRAME_REPEATS) bits) e
   \<and> streamFrame recorder bits [] = frame_symbols (nat FRAME_REPEATS) bits
   \<and> length (frame_symbols (nat FRAME_REPEATS) bits)
       = 1 + (1 + nat FRAME_REPEATS) * (length bits + 1) + nat FRAME_REPEATS + 1
   \<and> count_list (frame_symbols (nat FRAME_REPEATS) bits) Trailer = 1 + nat FRAME_REPEATS
   \<and> (length bits = 8 \<longrightarrow> length (streamFrame recorder bits []) = 41)"
proof -
  have n: "nat FRAME_REPEATS = 3" by (simp add: FRAME_REPEATS_def)
  show ?thesis
    unfolding n
    by (simp add: streamFrame_symbols fold_emit_recorder length_frame_symbols count_trailer_frame)
qed

theorem streamFrame_symbol_sequence_witness:
  "length [0, 0, 0, 0, 0, 0, 0, 0 :: uint8_t] = 8
   \<and> length (streamFrame recorder [0, 0, 0, 0, 0, 0, 0, 0] []) = 41"
proof -
  have h: "length [0, 0, 0, 0, 0, 0, 0, 0 :: uint8_t] = 8" by simp
  show ?thesis
    using h streamFrame_symbol_sequence [of recorder "[0, 0, 0, 0, 0, 0, 0, 0]" "[]"] by blast
qed

section \<open>Transceiver\<close>






















lemma unat_tuningWord: "unat (tuningWord hz) = unat hz * 65536 div 26000000"
proof -
  have hz: "unat hz < 2 ^ 32" using unsigned_less [of hz] by simp
  have up: "unat (ucast hz :: 64 word) = unat hz"
    using hz by (simp add: unsigned_ucast_eq take_bit_nat_eq_self)
  have lt: "unat (ucast hz :: 64 word) * unat (65536 :: 64 word) < 2 ^ LENGTH(64)"
    using hz by (simp add: up)
  have "unat ((ucast hz :: 64 word) * 65536) = unat (ucast hz :: 64 word) * unat (65536 :: 64 word)"
    using lt by (rule iffD1 [OF unat_mult_lem])
  then have m: "unat ((ucast hz :: 64 word) * 65536) = unat hz * 65536"
    by (simp add: up)
  have d: "unat ((ucast hz :: 64 word) * 65536 div 26000000) = unat hz * 65536 div 26000000"
    by (simp add: unat_div m)
  have "unat hz * 65536 div 26000000 < 2 ^ 32" using hz by simp
  then show ?thesis
    by (simp add: tuningWord_def F_XOSC_def unsigned_ucast_eq d take_bit_nat_eq_self)
qed

lemma tuningWord_315: "tuningWord 315000000 = 793993"
  by (simp add: tuningWord_def F_XOSC_def)

lemma setFrequency_315:
  "setFrequency hw 315000000 d =
     snd (writeRegister hw Address_FREQ0 0x89
       (snd (writeRegister hw Address_FREQ1 0x1D
         (snd (writeRegister hw Address_FREQ2 0x0C d)))))"
  by (simp add: setFrequency_def tuningWord_315 Let_def)

lemma tuningWord_24_bits:
  assumes "300000000 \<le> hz" "hz \<le> 928000000"
  shows "tuningWord hz < 2 ^ 24"
proof -
  have "unat hz \<le> 928000000" using assms(2) by (simp add: word_le_nat_alt)
  then have "unat hz * 65536 div 26000000 < 2 ^ 24" by simp
  then show ?thesis by (simp add: word_less_nat_alt unat_tuningWord)
qed

text \<open>
  Claim C4 gives 793161 (0x0C1B09) as the tuning word for 315 MHz and 0x0C, 0x1B, 0x09 as
  the programmed bytes. The code computes another word, and on the chip that stores what is
  written the middle and low frequency registers end up with other bytes.
\<close>

theorem setFrequency_315_not_0C1B09:
  "tuningWord 315000000 \<noteq> 793161
   \<and> regs (setFrequency fake_bus 315000000 (chip_with [])) Address_FREQ1 \<noteq> 0x1B
   \<and> regs (setFrequency fake_bus 315000000 (chip_with [])) Address_FREQ0 \<noteq> 0x09"
  by (simp add: tuningWord_315 setFrequency_315 fake_writeRegister Address_FREQ2_def
        Address_FREQ1_def Address_FREQ0_def)

text \<open>
  Claim C4 as amended: the tuning word is floor(hz * 65536 / 26000000), below 2^24 for every
  accepted frequency; for 315000000 Hz it is 793993 (0x0C1D89) and \<^verbatim>\<open>setFrequency\<close> writes
  the bytes 0x0C, 0x1D, 0x89 to FREQ2, FREQ1, FREQ0 in that order, which is what those three
  registers of the storing chip then hold, all others unchanged; a frequency below 300 MHz
  or above 928 MHz leaves the device untouched on any bus.
\<close>

theorem setFrequency_tuning_word:
  "unat (tuningWord hz) = unat hz * 2 ^ 16 div 26000000
   \<and> (300000000 \<le> hz \<and> hz \<le> 928000000 \<longrightarrow> tuningWord hz < 2 ^ 24)
   \<and> tuningWord 315000000 = 793993
   \<and> setFrequency hw 315000000 d =
       snd (writeRegister hw Address_FREQ0 0x89
         (snd (writeRegister hw Address_FREQ1 0x1D
           (snd (writeRegister hw Address_FREQ2 0x0C d)))))
   \<and> regs (setFrequency fake_bus 315000000 c)
       = (regs c)(Address_FREQ2 := 0x0C, Address_FREQ1 := 0x1D, Address_FREQ0 := 0x89)
   \<and> (hz < 300000000 \<or> 928000000 < hz \<longrightarrow> setFrequency hw hz d = d)"
proof -
  have a: "unat (tuningWord hz) = unat hz * 2 ^ 16 div 26000000" by (simp add: unat_tuningWord)
  have b: "300000000 \<le> hz \<and> hz \<le> 928000000 \<longrightarrow> tuningWord hz < 2 ^ 24"
    using tuningWord_24_bits by blast
  have e: "regs (setFrequency fake_bus 315000000 c)
       = (regs c)(Address_FREQ2 := 0x0C, Address_FREQ1 := 0x1D, Address_FREQ0 := 0x89)"
    by (simp add: setFrequency_315 fake_writeRegister Address_FREQ2_def Address_FREQ1_def
        Address_FREQ0_def)
  have f: "hz < 300000000 \<or> 928000000 < hz \<longrightarrow> setFrequency hw hz d = d"
    by (simp add: setFrequency_def)
  show ?thesis
    by (intro conjI) (rule a, rule b, rule tuningWord_315, rule setFrequency_315, rule e, rule f)
qed

theorem setFrequency_tuning_word_witness:
  "((300000000 :: uint32_t) \<le> 315000000 \<and> (315000000 :: uint32_t) \<le> 928000000
      \<and> tuningWord 315000000 < 2 ^ 24)
   \<and> ((299999999 :: uint32_t) < 300000000
      \<and> setFrequency fake_bus 299999999 (chip_with []) = chip_with [])"
proof -
  have h1: "(300000000 :: uint32_t) \<le> 315000000 \<and> (315000000 :: uint32_t) \<le> 928000000"
    by simp
  have h2: "(299999999 :: uint32_t) < 300000000" by simp
  show ?thesis
    using h1 h2
      setFrequency_tuning_word [of 315000000 fake_bus "chip_with []" "chip_with []"]
      setFrequency_tuning_word [of 299999999 fake_bus "chip_with []" "chip_with []"]
    by blast
qed

text \<open>
  Claim C9 says that power programming fills the power table and replaces the low three
  bits of FREND0 (0x22), touching no other register. Here FREND0 holds 0x11 and MDMCFG3
  (0x11) holds 0x83, and \<^verbatim>\<open>setPowerLevel(7)\<close> runs on the chip that stores what is written:
  FREND0 still holds 0x11, MDMCFG3 now holds 0x17, and the bytes sent are one read of 0x22,
  one write of 0x17 to 0x11 and its readback, with no burst write of the table.
\<close>

theorem setPowerLevel_writes_wrong_register:
  "regs (setPowerLevel fake_bus 7 (chip_with [(0x22, 0x11), (0x11, 0x83)])) Address_FREND0 = 0x11
   \<and> regs (setPowerLevel fake_bus 7 (chip_with [(0x22, 0x11), (0x11, 0x83)])) Address_MDMCFG3 = 0x17
   \<and> mosi (setPowerLevel fake_bus 7 (chip_with [(0x22, 0x11), (0x11, 0x83)]))
       = [0xA2, 0x00, 0x11, 0x17, 0x91, 0x00]"
  by (simp add: setPowerLevel_def configurePATable_def writeBurstRegister_def Address_PATABLE_def
      Address_FREND0_def Value_FREND0_def Address_MDMCFG3_def spi_defs fake_defs retry3)

section \<open>Debounce engine\<close>

lemma thresholdCount_le:
  assumes "thresholdPercentage s \<le> 100"
  shows "thresholdCount s \<le> BUFFER_SIZE"
proof -
  have "unat (thresholdPercentage s) \<le> 100" using assms by (simp add: word_le_nat_alt)
  then show ?thesis by (simp add: thresholdCount_def BUFFER_SIZE_def)
qed

lemma thresholdCount_ceiling:
  "thresholdCount s = nat \<lceil>real (BUFFER_SIZE * unat (thresholdPercentage s)) / 100\<rceil>"
proof -
  define n where "n = BUFFER_SIZE * unat (thresholdPercentage s)"
  have "\<lceil>real n / 100\<rceil> = \<lceil>of_int (int n) / (of_int 100 :: real)\<rceil>" by simp
  also have "\<dots> = - (- int n div 100)" by (rule ceiling_divide_eq_div)
  also have "\<dots> = int ((n + 99) div 100)" by (simp add: zdiv_int)
  finally show ?thesis by (simp add: thresholdCount_def n_def)
qed

lemma release_test:
  assumes "th \<le> BUFFER_SIZE"
  shows "int tc \<le> (int BUFFER_SIZE - int th) mod 2 ^ 16 \<longleftrightarrow> tc \<le> BUFFER_SIZE - th"
proof -
  have "0 \<le> int BUFFER_SIZE - int th" "int BUFFER_SIZE - int th < 2 ^ 16"
    using assms by (simp_all add: BUFFER_SIZE_def)
  then have "(int BUFFER_SIZE - int th) mod 2 ^ 16 = int (BUFFER_SIZE - th)"
    using assms by simp
  then show ?thesis by simp
qed

lemma takeSample_fields:
  assumes "takeSample t s = Some s1"
  shows "debouncing s1 = debouncing s" "pressedDetected s1 = pressedDetected s"
    "stableState s1 = stableState s" "thresholdPercentage s1 = thresholdPercentage s"
    "callbacks s1 = callbacks s" "callbackCounter s1 = callbackCounter s"
    "isActiveLow s1 = isActiveLow s"
  using assms by (auto simp: takeSample_def Let_def split: prod.splits if_splits)

lemma takeSample_thresholdCount:
  "takeSample t s = Some s1 \<Longrightarrow> thresholdCount s1 = thresholdCount s"
  by (simp add: thresholdCount_def takeSample_fields)

lemma takeSample_fireCallbacks:
  "takeSample t s = Some s1 \<Longrightarrow> fireCallbacks s1 = fireCallbacks s"
  by (simp add: fireCallbacks_def takeSample_fields)

lemma takeSample_wf:
  "takeSample t s = Some s1 \<Longrightarrow> wf s \<Longrightarrow> wf s1"
  by (auto simp: takeSample_def wf_def Let_def BUFFER_SIZE_def split: prod.splits if_splits)

lemma updates_disarmed:
  "\<not> debouncing s \<Longrightarrow> updates ts s = (s, replicate (length ts) [])"
  by (induction ts) (simp_all add: update_def)

lemma takeSample_flags:
  "takeSample t (s\<lparr>stableState := a, pressedDetected := b\<rparr>)
     = map_option (\<lambda>u. u\<lparr>stableState := a, pressedDetected := b\<rparr>) (takeSample t s)"
  by (simp add: takeSample_def Let_def split: prod.splits)

lemma trueCount_flags: "trueCount (s\<lparr>stableState := a, pressedDetected := b\<rparr>) = trueCount s"
  by (simp add: trueCount_def)

lemma sampled_counts_flags:
  "sampled_counts ts (s\<lparr>stableState := a, pressedDetected := b\<rparr>) = sampled_counts ts s"
proof (induction ts arbitrary: s)
  case Nil
  show ?case by simp
next
  case (Cons t ts)
  show ?case
  proof (cases "takeSample t s")
    case None
    then show ?thesis using Cons.IH [of s] by (simp add: takeSample_flags)
  next
    case (Some s1)
    then show ?thesis using Cons.IH [of s1] by (simp add: takeSample_flags trueCount_flags)
  qed
qed


lemma update_none:
  "debouncing s \<Longrightarrow> takeSample t s = None \<Longrightarrow> update t s = (s, [])"
  by (simp add: update_def)

lemma update_press:
  assumes "debouncing s" "\<not> pressedDetected s" "takeSample t s = Some s1"
    "thresholdCount s \<le> trueCount s1"
  shows "update t s = (s1\<lparr>stableState := True, pressedDetected := True\<rparr>, fireCallbacks s)"
  using assms
  by (simp add: update_def Let_def takeSample_thresholdCount [OF assms(3)]
      takeSample_fireCallbacks [OF assms(3)] takeSample_fields [OF assms(3)])

lemma update_wait:
  assumes "debouncing s" "\<not> pressedDetected s" "takeSample t s = Some s1"
    "trueCount s1 < thresholdCount s"
  shows "update t s = (s1, [])"
  using assms
  by (simp add: update_def Let_def takeSample_thresholdCount [OF assms(3)]
      takeSample_fields [OF assms(3)])

lemma update_release:
  assumes "debouncing s" "pressedDetected s" "thresholdPercentage s \<le> 100"
    "takeSample t s = Some s1" "trueCount s1 \<le> BUFFER_SIZE - thresholdCount s"
  shows "update t s = ((clearBuffer (s1\<lparr>stableState := False, pressedDetected := False\<rparr>))
                         \<lparr>debouncing := False\<rparr>, [])"
  using assms release_test [OF thresholdCount_le [OF assms(3)], of "trueCount s1"]
  by (simp add: update_def Let_def takeSample_thresholdCount [OF assms(4)]
      takeSample_fields [OF assms(4)])

lemma update_hold:
  assumes "debouncing s" "pressedDetected s" "thresholdPercentage s \<le> 100"
    "takeSample t s = Some s1" "\<not> trueCount s1 \<le> BUFFER_SIZE - thresholdCount s"
  shows "update t s = (s1, [])"
  using assms release_test [OF thresholdCount_le [OF assms(3)], of "trueCount s1"]
  by (simp add: update_def Let_def takeSample_thresholdCount [OF assms(4)]
      takeSample_fields [OF assms(4)])

lemma released_after_release:
  "released ((clearBuffer (s1\<lparr>stableState := False, pressedDetected := False\<rparr>))\<lparr>debouncing := False\<rparr>)"
  by (simp add: released_def clearBuffer_def)

lemma pressed_phase:
  assumes "debouncing s" "pressedDetected s" "thresholdPercentage s \<le> 100"
  shows "snd (updates ts s) = replicate (length ts) []
    \<and> (length ts \<le> release_wait (thresholdCount s) (sampled_counts ts s) \<longrightarrow>
         debouncing (fst (updates ts s)) \<and> pressedDetected (fst (updates ts s))
         \<and> stableState (fst (updates ts s)) = stableState s)
    \<and> (release_wait (thresholdCount s) (sampled_counts ts s) < length ts \<longrightarrow>
         released (fst (updates ts s)))"
  using assms
proof (induction ts arbitrary: s)
  case Nil
  then show ?case by (simp add: release_wait_def)
next
  case (Cons t ts)
  show ?case
  proof (cases "takeSample t s")
    case None
    have u: "update t s = (s, [])" using Cons.prems(1) None by (rule update_none)
    show ?thesis
      using Cons.IH [OF Cons.prems] None
      by (simp add: u release_wait_def case_prod_beta)
  next
    case (Some s1)
    note f = takeSample_fields [OF Some]
    show ?thesis
    proof (cases "trueCount s1 \<le> BUFFER_SIZE - thresholdCount s")
      case True
      let ?r = "(clearBuffer (s1\<lparr>stableState := False, pressedDetected := False\<rparr>))\<lparr>debouncing := False\<rparr>"
      have u: "update t s = (?r, [])"
        using Cons.prems Some True by (rule update_release)
      have d: "updates ts ?r = (?r, replicate (length ts) [])"
        by (rule updates_disarmed) (simp add: clearBuffer_def)
      show ?thesis
        using Some True released_after_release [of s1]
        by (simp add: u d release_wait_def)
    next
      case False
      have u: "update t s = (s1, [])"
        using Cons.prems Some False by (rule update_hold)
      have ih: "snd (updates ts s1) = replicate (length ts) []
        \<and> (length ts \<le> release_wait (thresholdCount s1) (sampled_counts ts s1) \<longrightarrow>
             debouncing (fst (updates ts s1)) \<and> pressedDetected (fst (updates ts s1))
             \<and> stableState (fst (updates ts s1)) = stableState s1)
        \<and> (release_wait (thresholdCount s1) (sampled_counts ts s1) < length ts \<longrightarrow>
             released (fst (updates ts s1)))"
        using Cons.prems by (intro Cons.IH) (simp_all add: f)
      show ?thesis
        using ih Some False
        by (simp add: u release_wait_def takeSample_thresholdCount [OF Some] f case_prod_beta)
    qed
  qed
qed


lemma press_index_Cons:
  "press_index th (None # cs) = Suc (press_index th cs)"
  "tc < th \<Longrightarrow> press_index th (Some tc # cs) = Suc (press_index th cs)"
  "th \<le> tc \<Longrightarrow> press_index th (Some tc # cs) = 0"
  by (simp_all add: press_index_def)

lemma release_index_Cons:
  "release_index th (None # cs) = Suc (release_index th cs)"
  "tc < th \<Longrightarrow> release_index th (Some tc # cs) = Suc (release_index th cs)"
  "th \<le> tc \<Longrightarrow> release_index th (Some tc # cs) = Suc (release_wait th cs)"
  by (simp_all add: release_index_def press_index_Cons)

lemma sampling_phase:
  assumes "debouncing s" "\<not> pressedDetected s" "thresholdPercentage s \<le> 100"
  shows "snd (updates ts s)
      = (replicate (length ts) [])
          [press_index (thresholdCount s) (sampled_counts ts s) := fireCallbacks s]
    \<and> (length ts \<le> press_index (thresholdCount s) (sampled_counts ts s) \<longrightarrow>
         debouncing (fst (updates ts s)) \<and> \<not> pressedDetected (fst (updates ts s))
         \<and> stableState (fst (updates ts s)) = stableState s)
    \<and> (press_index (thresholdCount s) (sampled_counts ts s) < length ts
         \<and> length ts \<le> release_index (thresholdCount s) (sampled_counts ts s) \<longrightarrow>
         debouncing (fst (updates ts s)) \<and> pressedDetected (fst (updates ts s))
         \<and> stableState (fst (updates ts s)))
    \<and> (release_index (thresholdCount s) (sampled_counts ts s) < length ts \<longrightarrow>
         released (fst (updates ts s)))"
  using assms
proof (induction ts arbitrary: s)
  case Nil
  then show ?case by (simp add: press_index_def release_index_def)
next
  case (Cons t ts)
  show ?case
  proof (cases "takeSample t s")
    case None
    have u: "update t s = (s, [])" using Cons.prems(1) None by (rule update_none)
    show ?thesis
      using Cons.IH [OF Cons.prems] None
      by (simp add: u press_index_Cons release_index_Cons case_prod_beta)
  next
    case (Some s1)
    note f = takeSample_fields [OF Some]
    note th = takeSample_thresholdCount [OF Some]
    show ?thesis
    proof (cases "trueCount s1 < thresholdCount s")
      case True
      have u: "update t s = (s1, [])"
        using Cons.prems(1,2) Some True by (rule update_wait)
      have ih: "snd (updates ts s1)
          = (replicate (length ts) [])
              [press_index (thresholdCount s1) (sampled_counts ts s1) := fireCallbacks s1]
        \<and> (length ts \<le> press_index (thresholdCount s1) (sampled_counts ts s1) \<longrightarrow>
             debouncing (fst (updates ts s1)) \<and> \<not> pressedDetected (fst (updates ts s1))
             \<and> stableState (fst (updates ts s1)) = stableState s1)
        \<and> (press_index (thresholdCount s1) (sampled_counts ts s1) < length ts
             \<and> length ts \<le> release_index (thresholdCount s1) (sampled_counts ts s1) \<longrightarrow>
             debouncing (fst (updates ts s1)) \<and> pressedDetected (fst (updates ts s1))
             \<and> stableState (fst (updates ts s1)))
        \<and> (release_index (thresholdCount s1) (sampled_counts ts s1) < length ts \<longrightarrow>
             released (fst (updates ts s1)))"
        using Cons.prems by (intro Cons.IH) (simp_all add: f)
      show ?thesis
        using ih Some True
        by (simp add: u press_index_Cons release_index_Cons th f
            takeSample_fireCallbacks [OF Some] case_prod_beta)
    next
      case False
      then have ge: "thresholdCount s \<le> trueCount s1" by simp
      let ?p = "s1\<lparr>stableState := True, pressedDetected := True\<rparr>"
      have u: "update t s = (?p, fireCallbacks s)"
        using Cons.prems(1,2) Some ge by (rule update_press)
      have thp: "thresholdCount ?p = thresholdCount s" by (simp add: thresholdCount_def f)
      have pp: "snd (updates ts ?p) = replicate (length ts) []
        \<and> (length ts \<le> release_wait (thresholdCount ?p) (sampled_counts ts ?p) \<longrightarrow>
             debouncing (fst (updates ts ?p)) \<and> pressedDetected (fst (updates ts ?p))
             \<and> stableState (fst (updates ts ?p)) = stableState ?p)
        \<and> (release_wait (thresholdCount ?p) (sampled_counts ts ?p) < length ts \<longrightarrow>
             released (fst (updates ts ?p)))"
        using Cons.prems by (intro pressed_phase) (simp_all add: f)
      show ?thesis
        using pp Some ge
        by (simp add: u press_index_Cons release_index_Cons thp sampled_counts_flags
            case_prod_beta)
    qed
  qed
qed


lemma fireCallbacks_take:
  assumes "callbackCounter s \<le> length (callbacks s)"
  shows "fireCallbacks s
           = map the (filter (\<lambda>c. c \<noteq> None) (take (callbackCounter s) (callbacks s)))"
proof -
  have "map (\<lambda>i. callbacks s ! i) [0..<callbackCounter s] = take (callbackCounter s) (callbacks s)"
    using assms by (simp add: list_eq_iff_nth_eq)
  then have "map the (filter (\<lambda>c. c \<noteq> None) (take (callbackCounter s) (callbacks s)))
        = map the (filter (\<lambda>c. c \<noteq> None) (map (\<lambda>i. callbacks s ! i) [0..<callbackCounter s]))"
    by simp
  also have "\<dots> = fireCallbacks s"
    by (simp add: fireCallbacks_def List.map_filter_def filter_map comp_def)
  finally show ?thesis by simp
qed


text \<open>
  Claim C6: with the 16-slot buffer, from any armed state in which no press has fired yet
  and for every sequence of \<^verbatim>\<open>update()\<close> calls: the threshold count is
  ceil(16 * percentage / 100); the registered callbacks (the non-null entries among the
  first \<^verbatim>\<open>_callbackCounter\<close> slots of the callback array, in index order) are called in
  exactly one call, the first one whose sample brings the true-count to the threshold count
  or above, and no callback is called in any other call of the sequence; as long as no sample has done so the engine stays armed with
  no press recorded; from the press until a later sample has a true-count of at most
  16 minus the threshold count it stays armed with the stable state pressed; that sample
  sets the stable state to released, clears the buffer and disarms. For 60 percent the
  two bounds are 10 and 6.
\<close>

theorem debounce_session:
  assumes "wf s" "debouncing s" "\<not> pressedDetected s"
  shows "thresholdCount s = nat \<lceil>real (BUFFER_SIZE * unat (thresholdPercentage s)) / 100\<rceil>
    \<and> snd (updates ts s)
        = (replicate (length ts) [])
            [press_index (thresholdCount s) (sampled_counts ts s)
               := map the (filter (\<lambda>c. c \<noteq> None) (take (callbackCounter s) (callbacks s)))]
    \<and> (length ts \<le> press_index (thresholdCount s) (sampled_counts ts s) \<longrightarrow>
         debouncing (fst (updates ts s)) \<and> \<not> pressedDetected (fst (updates ts s))
         \<and> stableState (fst (updates ts s)) = stableState s)
    \<and> (press_index (thresholdCount s) (sampled_counts ts s) < length ts
         \<and> length ts \<le> release_index (thresholdCount s) (sampled_counts ts s) \<longrightarrow>
         debouncing (fst (updates ts s)) \<and> pressedDetected (fst (updates ts s))
         \<and> stableState (fst (updates ts s)))
    \<and> (release_index (thresholdCount s) (sampled_counts ts s) < length ts \<longrightarrow>
         released (fst (updates ts s)))
    \<and> (thresholdPercentage s = 60 \<longrightarrow>
         thresholdCount s = 10 \<and> BUFFER_SIZE - thresholdCount s = 6)"
proof -
  have p: "thresholdPercentage s \<le> 100" using assms(1) by (simp add: wf_def)
  have cl: "callbackCounter s \<le> length (callbacks s)" using assms(1) by (simp add: wf_def)
  note fc = fireCallbacks_take [OF cl]
  have c: "thresholdCount s = nat \<lceil>real (BUFFER_SIZE * unat (thresholdPercentage s)) / 100\<rceil>"
    by (rule thresholdCount_ceiling)
  have e: "thresholdPercentage s = 60 \<longrightarrow>
         thresholdCount s = 10 \<and> BUFFER_SIZE - thresholdCount s = 6"
    by (simp add: thresholdCount_def BUFFER_SIZE_def)
  show ?thesis
    using c e sampling_phase [OF assms(2,3) p, of ts] unfolding fc by blast
qed

theorem debounce_session_witness:
  "(wf example_armed \<and> debouncing example_armed \<and> \<not> pressedDetected example_armed)
   \<and> (thresholdPercentage example_armed = 60
        \<and> thresholdCount example_armed = 10 \<and> BUFFER_SIZE - thresholdCount example_armed = 6)
   \<and> (length (example_ticks (replicate 9 False))
          \<le> press_index (thresholdCount example_armed)
               (sampled_counts (example_ticks (replicate 9 False)) example_armed)
        \<and> \<not> pressedDetected (fst (updates (example_ticks (replicate 9 False)) example_armed)))
   \<and> snd (updates (example_ticks (replicate 9 False)) example_armed)
       = [[], [], [], [], [], [], [], [], []]
   \<and> snd (updates (example_ticks (replicate 10 False)) example_armed)
       = [[], [], [], [], [], [], [], [], [], [7]]
   \<and> snd (updates (example_ticks (replicate 10 False @ replicate 10 True)) example_armed)
       = [[], [], [], [], [], [], [], [], [], [7], [], [], [], [], [], [], [], [], [], []]
   \<and> (press_index (thresholdCount example_armed)
           (sampled_counts (example_ticks (replicate 10 False)) example_armed)
          < length (example_ticks (replicate 10 False))
        \<and> length (example_ticks (replicate 10 False))
          \<le> release_index (thresholdCount example_armed)
               (sampled_counts (example_ticks (replicate 10 False)) example_armed)
        \<and> pressedDetected (fst (updates (example_ticks (replicate 10 False)) example_armed)))
   \<and> (release_index (thresholdCount example_armed)
           (sampled_counts (example_ticks (replicate 10 False @ replicate 10 True)) example_armed)
          < length (example_ticks (replicate 10 False @ replicate 10 True))
        \<and> released (fst (updates (example_ticks (replicate 10 False @ replicate 10 True))
                            example_armed)))"
proof -
  have a: "wf example_armed" "debouncing example_armed" "\<not> pressedDetected example_armed"
    by code_simp+
  have p: "thresholdPercentage example_armed = 60" by code_simp
  have h1: "length (example_ticks (replicate 9 False))
          \<le> press_index (thresholdCount example_armed)
               (sampled_counts (example_ticks (replicate 9 False)) example_armed)"
    by code_simp
  have h2: "press_index (thresholdCount example_armed)
           (sampled_counts (example_ticks (replicate 10 False)) example_armed)
          < length (example_ticks (replicate 10 False))
        \<and> length (example_ticks (replicate 10 False))
          \<le> release_index (thresholdCount example_armed)
               (sampled_counts (example_ticks (replicate 10 False)) example_armed)"
    by code_simp
  have h3: "release_index (thresholdCount example_armed)
           (sampled_counts (example_ticks (replicate 10 False @ replicate 10 True)) example_armed)
          < length (example_ticks (replicate 10 False @ replicate 10 True))"
    by code_simp
  let ?called = "map the (filter (\<lambda>c. c \<noteq> None)
                    (take (callbackCounter example_armed) (callbacks example_armed)))"
  have r1: "(replicate (length (example_ticks (replicate 9 False))) [])
              [press_index (thresholdCount example_armed)
                 (sampled_counts (example_ticks (replicate 9 False)) example_armed) := ?called]
            = [[], [], [], [], [], [], [], [], []]"
    by code_simp
  have r2: "(replicate (length (example_ticks (replicate 10 False))) [])
              [press_index (thresholdCount example_armed)
                 (sampled_counts (example_ticks (replicate 10 False)) example_armed) := ?called]
            = [[], [], [], [], [], [], [], [], [], [7]]"
    by code_simp
  have r3: "(replicate (length (example_ticks (replicate 10 False @ replicate 10 True))) [])
              [press_index (thresholdCount example_armed)
                 (sampled_counts (example_ticks (replicate 10 False @ replicate 10 True))
                    example_armed) := ?called]
            = [[], [], [], [], [], [], [], [], [], [7], [], [], [], [], [], [], [], [], [], []]"
    by code_simp
  have c1: "snd (updates (example_ticks (replicate 9 False)) example_armed)
       = [[], [], [], [], [], [], [], [], []]"
    using debounce_session [OF a, of "example_ticks (replicate 9 False)"] r1 by metis
  have c2: "snd (updates (example_ticks (replicate 10 False)) example_armed)
       = [[], [], [], [], [], [], [], [], [], [7]]"
    using debounce_session [OF a, of "example_ticks (replicate 10 False)"] r2 by metis
  have c3: "snd (updates (example_ticks (replicate 10 False @ replicate 10 True)) example_armed)
       = [[], [], [], [], [], [], [], [], [], [7], [], [], [], [], [], [], [], [], [], []]"
    using debounce_session [OF a, of "example_ticks (replicate 10 False @ replicate 10 True)"] r3
    by metis
  show ?thesis
    using a p h1 h2 h3 c1 c2 c3
      debounce_session [OF a, of "example_ticks (replicate 9 False)"]
      debounce_session [OF a, of "example_ticks (replicate 10 False)"]
      debounce_session [OF a, of "example_ticks (replicate 10 False @ replicate 10 True)"]
    by blast
qed

lemma fold_addCallback_full:
  "callbackCounter s = MAX_CALLBACKS \<Longrightarrow> fold addCallback cbs s = s"
  by (induction cbs) (simp_all add: addCallback_def)

lemma fold_addCallback:
  assumes "callbackCounter s \<le> MAX_CALLBACKS" "length (callbacks s) = MAX_CALLBACKS"
  shows "callbackCounter (fold addCallback cbs s)
           = min MAX_CALLBACKS (callbackCounter s + length cbs)
    \<and> length (callbacks (fold addCallback cbs s)) = MAX_CALLBACKS
    \<and> take (callbackCounter (fold addCallback cbs s)) (callbacks (fold addCallback cbs s))
           = take (callbackCounter s) (callbacks s) @ take (MAX_CALLBACKS - callbackCounter s) cbs"
  using assms
proof (induction cbs arbitrary: s)
  case Nil
  then show ?case by simp
next
  case (Cons cb cbs)
  show ?case
  proof (cases "callbackCounter s < MAX_CALLBACKS")
    case False
    with Cons.prems have full: "callbackCounter s = MAX_CALLBACKS" by simp
    have "fold addCallback (cb # cbs) s = s" using full by (rule fold_addCallback_full)
    then show ?thesis using full Cons.prems by simp
  next
    case True
    let ?s1 = "addCallback cb s"
    have c1: "callbackCounter ?s1 = Suc (callbackCounter s)"
      and l1: "length (callbacks ?s1) = MAX_CALLBACKS"
      and t1: "take (Suc (callbackCounter s)) (callbacks ?s1) = take (callbackCounter s) (callbacks s) @ [cb]"
      using True Cons.prems by (simp_all add: addCallback_def take_Suc_conv_app_nth)
    have le1: "callbackCounter ?s1 \<le> MAX_CALLBACKS" using True c1 by simp
    have m: "take (MAX_CALLBACKS - callbackCounter s) (cb # cbs)
               = cb # take (MAX_CALLBACKS - Suc (callbackCounter s)) cbs"
    proof -
      have "MAX_CALLBACKS - callbackCounter s = Suc (MAX_CALLBACKS - Suc (callbackCounter s))"
        using True by simp
      then show ?thesis by simp
    qed
    show ?thesis
      using Cons.IH [OF le1 l1] by (auto simp add: c1 t1 m)
  qed
qed

text \<open>
  Claim C10: starting from a registration count of zero (as after construction or after
  \<^verbatim>\<open>reset()\<close>, which both leave it at zero), after any sequence of \<^verbatim>\<open>addCallback\<close> calls the
  count is the smaller of 4 and the number of calls, so never above 4; the stored entries
  are the first at most four registrations in order; registrations after the fourth change
  nothing; and a confirmed press calls exactly those entries, in registration order, a
  null pointer among them being skipped.
\<close>

theorem callback_registrations_capped:
  assumes "callbackCounter s0 = 0" "length (callbacks s0) = MAX_CALLBACKS"
  shows "callbackCounter (fold addCallback cbs s0) = min MAX_CALLBACKS (length cbs)
    \<and> callbackCounter (fold addCallback cbs s0) \<le> 4
    \<and> take (callbackCounter (fold addCallback cbs s0)) (callbacks (fold addCallback cbs s0))
        = take MAX_CALLBACKS cbs
    \<and> (MAX_CALLBACKS \<le> length cbs \<longrightarrow>
         fold addCallback (cbs @ extra) s0 = fold addCallback cbs s0)
    \<and> fireCallbacks (fold addCallback cbs s0)
        = map the (filter (\<lambda>c. c \<noteq> None) (take MAX_CALLBACKS cbs))
    \<and> (callbacks u = callbacks (fold addCallback cbs s0)
         \<and> callbackCounter u = callbackCounter (fold addCallback cbs s0)
         \<and> debouncing u \<and> \<not> pressedDetected u
         \<and> takeSample t u = Some u1 \<and> thresholdCount u \<le> trueCount u1 \<longrightarrow>
         snd (update t u) = map the (filter (\<lambda>c. c \<noteq> None) (take MAX_CALLBACKS cbs)))
    \<and> callbackCounter (reset s) = 0 \<and> callbacks (reset s) = callbacks s
    \<and> callbackCounter (CircularDebounceBuffer_new activeLow delayUs slots) = 0
    \<and> callbacks (CircularDebounceBuffer_new activeLow delayUs slots) = slots"
proof -
  let ?s = "fold addCallback cbs s0"
  have le0: "callbackCounter s0 \<le> MAX_CALLBACKS" using assms(1) by simp
  note f = fold_addCallback [OF le0 assms(2), of cbs]
  have c: "callbackCounter ?s = min MAX_CALLBACKS (length cbs)"
    using f assms(1) by simp
  have c4: "callbackCounter ?s \<le> 4" using c by (simp add: MAX_CALLBACKS_def)
  have l: "length (callbacks ?s) = MAX_CALLBACKS" using f by simp
  have tk: "take (callbackCounter ?s) (callbacks ?s) = take MAX_CALLBACKS cbs"
    using f assms(1) by auto
  have d: "MAX_CALLBACKS \<le> length cbs \<longrightarrow> fold addCallback (cbs @ extra) s0 = ?s"
  proof
    assume "MAX_CALLBACKS \<le> length cbs"
    then have "callbackCounter ?s = MAX_CALLBACKS" using c by simp
    then have "fold addCallback extra ?s = ?s" by (rule fold_addCallback_full)
    then show "fold addCallback (cbs @ extra) s0 = ?s" by simp
  qed
  have cl: "callbackCounter ?s \<le> length (callbacks ?s)" using c l by simp
  have fc: "fireCallbacks ?s = map the (filter (\<lambda>c. c \<noteq> None) (take MAX_CALLBACKS cbs))"
    using fireCallbacks_take [OF cl] tk by simp
  have pr: "callbacks u = callbacks ?s \<and> callbackCounter u = callbackCounter ?s
         \<and> debouncing u \<and> \<not> pressedDetected u
         \<and> takeSample t u = Some u1 \<and> thresholdCount u \<le> trueCount u1 \<longrightarrow>
         snd (update t u) = map the (filter (\<lambda>c. c \<noteq> None) (take MAX_CALLBACKS cbs))"
  proof
    assume h: "callbacks u = callbacks ?s \<and> callbackCounter u = callbackCounter ?s
         \<and> debouncing u \<and> \<not> pressedDetected u
         \<and> takeSample t u = Some u1 \<and> thresholdCount u \<le> trueCount u1"
    then have "update t u = (u1\<lparr>stableState := True, pressedDetected := True\<rparr>, fireCallbacks u)"
      by (intro update_press) simp_all
    moreover have "fireCallbacks u = fireCallbacks ?s" using h by (simp add: fireCallbacks_def)
    ultimately show "snd (update t u)
        = map the (filter (\<lambda>c. c \<noteq> None) (take MAX_CALLBACKS cbs))"
      using fc by simp
  qed
  have r: "callbackCounter (reset s) = 0" "callbacks (reset s) = callbacks s"
    by (simp_all add: reset_def clearBuffer_def)
  have n: "callbackCounter (CircularDebounceBuffer_new activeLow delayUs slots) = 0"
    "callbacks (CircularDebounceBuffer_new activeLow delayUs slots) = slots"
    by (simp_all add: CircularDebounceBuffer_new_def clearBuffer_def)
  show ?thesis
    by (intro conjI) (rule c, rule c4, rule tk, rule d, rule fc, rule pr, rule r(1), rule r(2),
        rule n(1), rule n(2))
qed

theorem callback_registrations_capped_witness:
  "(callbackCounter (CircularDebounceBuffer_new True 1000 [None, None, None, None]) = 0
    \<and> length (callbacks (CircularDebounceBuffer_new True 1000 [None, None, None, None]))
        = MAX_CALLBACKS)
   \<and> (MAX_CALLBACKS \<le> length [Some 1, Some 2, None, Some 4, Some (5::nat)]
       \<and> fold addCallback ([Some 1, Some 2, None, Some 4, Some 5] @ [Some 6])
            (CircularDebounceBuffer_new True 1000 [None, None, None, None])
          = fold addCallback [Some 1, Some 2, None, Some 4, Some 5]
              (CircularDebounceBuffer_new True 1000 [None, None, None, None]))
   \<and> snd (update (tick_at 1 False)
         (startDebounce 0 (setThreshold 0
            (fold addCallback [Some 1, Some 2, None, Some 4, Some 5]
               (CircularDebounceBuffer_new True 1000 [None, None, None, None])))))
       = map the (filter (\<lambda>c. c \<noteq> None) (take MAX_CALLBACKS [Some 1, Some 2, None, Some 4, Some 5]))"
proof -
  let ?s0 = "CircularDebounceBuffer_new True 1000 [None, None, None, None]"
  let ?cbs = "[Some 1, Some 2, None, Some 4, Some (5::nat)]"
  let ?u = "startDebounce 0 (setThreshold 0 (fold addCallback ?cbs ?s0))"
  let ?t = "tick_at 1 False"
  have a: "callbackCounter ?s0 = 0" "length (callbacks ?s0) = MAX_CALLBACKS"
    by code_simp+
  have h1: "MAX_CALLBACKS \<le> length ?cbs" by code_simp
  have ts: "takeSample ?t ?u \<noteq> None" by code_simp
  then obtain u1 where u1: "takeSample ?t ?u = Some u1" by auto
  have tc: "thresholdCount ?u = 0" by code_simp
  have g: "callbacks ?u = callbacks (fold addCallback ?cbs ?s0)"
    "callbackCounter ?u = callbackCounter (fold addCallback ?cbs ?s0)"
    "debouncing ?u" "\<not> pressedDetected ?u"
    by code_simp+
  have le: "thresholdCount ?u \<le> trueCount u1" using tc by simp
  have h2: "callbacks ?u = callbacks (fold addCallback ?cbs ?s0)
         \<and> callbackCounter ?u = callbackCounter (fold addCallback ?cbs ?s0)
         \<and> debouncing ?u \<and> \<not> pressedDetected ?u
         \<and> takeSample ?t ?u = Some u1 \<and> thresholdCount ?u \<le> trueCount u1"
    by (intro conjI) (rule g(1), rule g(2), rule g(3), rule g(4), rule u1, rule le)
  show ?thesis
    using a h1 h2
      callback_registrations_capped [OF a, of ?cbs "[Some 6]" ?u ?t u1]
    by blast
qed

end
